theory Spec2Isabelle
  imports Complex_Main
begin

section \<open>The trade blotter of the options scalper (fo.py)\<close>

text \<open>
  The program keeps one list of trades, \<^verbatim>\<open>st.session_state.trades\<close>, and three
  pieces of code change it: the \<^verbatim>\<open>Add Trade\<close> handler (through \<^verbatim>\<open>save_trade\<close>),
  \<^verbatim>\<open>update_trade_exit\<close> and \<^verbatim>\<open>auto_close_if_hit\<close>. The list is modelled as a HOL list
  that every operation takes and returns. Python's \<^verbatim>\<open>float\<close> premiums are modelled as
  real numbers (rounding is not modelled), \<^verbatim>\<open>int\<close> as \<open>int\<close>, \<^verbatim>\<open>str\<close> as \<open>string\<close>
  restricted to ASCII, and the \<^verbatim>\<open>dict[str, float]\<close> of last traded prices as a map.
\<close>

subsection \<open>Data\<close>

text \<open>
  The dataclass \<^verbatim>\<open>Trade\<close>, field by field in the order of the source. The field
  \<^verbatim>\<open>id\<close> is named \<open>id_t\<close> here, since \<open>id\<close> is the identity function of HOL.
  \<open>option_type\<close> and \<open>status\<close> stay strings, as in the source, which compares them
  with the literals \<^verbatim>\<open>"CE"\<close> and \<^verbatim>\<open>"OPEN"\<close>.
\<close>

record trade =
  id_t :: string
  ts :: string
  symbol :: string
  option_type :: string
  strike :: real
  expiry :: string
  lot_size :: int
  lots :: int
  entry :: real
  target :: real
  stop :: real
  auto_close :: bool
  status :: string
  exit_price :: real
  pnl :: real

text \<open>
  The error kinds the specification names. No statement of the source raises one of
  them; the type is there so that the outcome of a call can be compared with them.
\<close>

datatype error = ValidationError | NotFoundError | AlreadyClosedError

subsection \<open>Closing a trade: \<^verbatim>\<open>update_trade_exit\<close>\<close>

text \<open>
  The loop walks the list from the front and stops (\<^verbatim>\<open>break\<close>) at the first trade
  whose id is \<open>trade_id\<close> and whose status is \<^verbatim>\<open>"OPEN"\<close>; it rewrites the three keys
  \<^verbatim>\<open>status\<close>, \<^verbatim>\<open>exit_price\<close> and \<^verbatim>\<open>pnl\<close> of that dictionary in place. The variable
  \<^verbatim>\<open>sign\<close> is computed and never read. The \<^verbatim>\<open>st.toast\<close> notification does not
  touch the list and is left out.
\<close>

fun update_trade_exit :: "string \<Rightarrow> real \<Rightarrow> trade list \<Rightarrow> trade list" where
  "update_trade_exit trade_id exit_px [] = []"
| "update_trade_exit trade_id exit_px (t # rest) =
     (if id_t t = trade_id \<and> status t = ''OPEN'' then
        (let sign = (if option_type t = ''CE'' then 1 else - 1 :: int);
             pnl_v = (exit_px - entry t) * real_of_int (lot_size t) * real_of_int (lots t)
         in t\<lparr>status := ''CLOSED'', exit_price := exit_px, pnl := pnl_v\<rparr> # rest)
      else t # update_trade_exit trade_id exit_px rest)"

text \<open>
  The outcome of a call as a caller sees it: the body has no \<^verbatim>\<open>raise\<close> and every
  path falls off the end of the function, so the call always returns normally.
\<close>

definition update_trade_exit_call :: "string \<Rightarrow> real \<Rightarrow> trade list \<Rightarrow> error + trade list" where
  "update_trade_exit_call trade_id exit_px trades = Inr (update_trade_exit trade_id exit_px trades)"

text \<open>
  The three assignments of the loop body as a function of the trade they rewrite. The
  results below are stated with it; \<open>update_trade_exit_Cons\<close> ties it to the loop.
\<close>

definition closed_at :: "real \<Rightarrow> trade \<Rightarrow> trade" where
  "closed_at p t = t\<lparr>status := ''CLOSED'', exit_price := p,
      pnl := (p - entry t) * real_of_int (lot_size t) * real_of_int (lots t)\<rparr>"

subsection \<open>The automatic close: \<^verbatim>\<open>auto_close_if_hit\<close>\<close>

text \<open>
  The two local flags of the loop body. The source computes them in an
  \<^verbatim>\<open>if t["option_type"] == "CE": ... else: ...\<close> with the same right-hand sides in
  both branches; the branches are kept.
\<close>

definition hit_target :: "trade \<Rightarrow> real \<Rightarrow> bool" where
  "hit_target t ltp = (if option_type t = ''CE'' then ltp \<ge> target t else ltp \<ge> target t)"

definition hit_stop :: "trade \<Rightarrow> real \<Rightarrow> bool" where
  "hit_stop t ltp =
     (if option_type t = ''CE'' then stop t > 0 \<and> ltp \<le> stop t
      else stop t > 0 \<and> ltp \<le> stop t)"

text \<open>
  One pass of the loop body for the trade at index \<open>i\<close>. The body reads the
  dictionary as it is at that moment and closes through \<^verbatim>\<open>update_trade_exit\<close>, which
  looks the trade up again by its id in the whole list.
\<close>

definition auto_close_body :: "(string \<rightharpoonup> real) \<Rightarrow> nat \<Rightarrow> trade list \<Rightarrow> trade list" where
  "auto_close_body ltp_map i trades =
     (let t = trades ! i in
      if status t \<noteq> ''OPEN'' then trades
      else case ltp_map (symbol t) of
        None \<Rightarrow> trades
      | Some ltp \<Rightarrow>
          if auto_close t then
            if hit_target t ltp then update_trade_exit (id_t t) (target t) trades
            else if hit_stop t ltp then update_trade_exit (id_t t) (stop t) trades
            else trades
          else trades)"

text \<open>
  The \<^verbatim>\<open>for t in st.session_state.trades\<close> loop: Python's list iterator keeps an
  index and stops when the index reaches the current length of the list.
\<close>

function auto_close_loop :: "(string \<rightharpoonup> real) \<Rightarrow> nat \<Rightarrow> trade list \<Rightarrow> trade list" where
  "auto_close_loop ltp_map i trades =
     (if i < length trades
      then auto_close_loop ltp_map (Suc i) (auto_close_body ltp_map i trades)
      else trades)"
  by pat_completeness auto
termination
proof (relation "measure (\<lambda>(ltp_map, i, trades). length trades - i)", goal_cases)
  case 1
  show ?case by simp
next
  case (2 ltp_map i trades)
  have len: "length (update_trade_exit a p xs) = length xs" for a p xs
    by (induction xs) (simp_all add: Let_def)
  have "length (auto_close_body ltp_map i trades) = length trades"
    by (simp add: auto_close_body_def Let_def len split: option.split)
  with 2 show ?case
    by simp
qed

definition auto_close_if_hit :: "(string \<rightharpoonup> real) \<Rightarrow> trade list \<Rightarrow> trade list" where
  "auto_close_if_hit ltp_map trades = auto_close_loop ltp_map 0 trades"

subsection \<open>Adding a trade: the \<^verbatim>\<open>Add Trade\<close> handler and \<^verbatim>\<open>save_trade\<close>\<close>

text \<open>
  \<^verbatim>\<open>str.strip()\<close> and \<^verbatim>\<open>str.upper()\<close> on ASCII text: the white space characters are
  the codes 9 to 13, 28 to 31 and 32, and the letters a to z are moved to A to Z.
\<close>

definition isspace :: "char \<Rightarrow> bool" where
  "isspace c = (let n = (of_char c :: nat) in (9 \<le> n \<and> n \<le> 13) \<or> (28 \<le> n \<and> n \<le> 32))"

definition strip :: "string \<Rightarrow> string" where
  "strip s = rev (dropWhile isspace (rev (dropWhile isspace s)))"

definition upper_char :: "char \<Rightarrow> char" where
  "upper_char c = (let n = (of_char c :: nat) in if 97 \<le> n \<and> n \<le> 122 then char_of (n - 32) else c)"

definition upper :: "string \<Rightarrow> string" where
  "upper s = map upper_char s"

text \<open>The values of the form widgets when the button is pressed.\<close>

record form =
  f_symbol :: string
  f_option_type :: string
  f_strike :: real
  f_expiry :: string
  f_lot_size :: int
  f_lots :: int
  f_entry :: real
  f_target :: real
  f_stop :: real
  f_auto_close :: bool

definition save_trade :: "trade \<Rightarrow> trade list \<Rightarrow> trade list" where
  "save_trade t trades = trades @ [t]"

text \<open>
  The handler of the \<^verbatim>\<open>Add Trade\<close> button. Its two readings of the environment are
  parameters: \<open>uuid4\<close> is the string \<^verbatim>\<open>str(uuid.uuid4())\<close> and \<open>now\<close> is the formatted
  clock reading. The handler contains no check of the form values and no
  \<^verbatim>\<open>raise\<close>.
\<close>

definition add_trade :: "string \<Rightarrow> string \<Rightarrow> form \<Rightarrow> trade list \<Rightarrow> trade list" where
  "add_trade uuid4 now f trades =
     save_trade
       \<lparr> id_t = take 8 uuid4,
         ts = now,
         symbol = upper (strip (f_symbol f)),
         option_type = f_option_type f,
         strike = f_strike f,
         expiry = strip (f_expiry f),
         lot_size = f_lot_size f,
         lots = f_lots f,
         entry = f_entry f,
         target = f_target f,
         stop = f_stop f,
         auto_close = f_auto_close f,
         status = ''OPEN'',
         exit_price = 0,
         pnl = 0 \<rparr>
       trades"


subsection \<open>Sessions: sequences of button presses\<close>

text \<open>
  The three buttons that change the list: \<^verbatim>\<open>Add Trade\<close>, \<^verbatim>\<open>Close Selected\<close> (which
  calls \<^verbatim>\<open>update_trade_exit(pick, close_px)\<close>) and \<^verbatim>\<open>Apply LTP & Auto-Close\<close>
  (which calls \<^verbatim>\<open>auto_close_if_hit(ltp_inputs)\<close>).
\<close>

datatype action =
    AddTrade string string form
  | CloseSelected string real
  | ApplyLTP "string \<rightharpoonup> real"

fun apply_action :: "action \<Rightarrow> trade list \<Rightarrow> trade list" where
  "apply_action (AddTrade uuid4 now f) trades = add_trade uuid4 now f trades"
| "apply_action (CloseSelected pick close_px) trades = update_trade_exit pick close_px trades"
| "apply_action (ApplyLTP ltp_inputs) trades = auto_close_if_hit ltp_inputs trades"

fun run_actions :: "action list \<Rightarrow> trade list \<Rightarrow> trade list" where
  "run_actions [] trades = trades"
| "run_actions (a # as) trades = run_actions as (apply_action a trades)"


subsection \<open>Notions used to state the results\<close>

text \<open>
  The twelve fields of a trade that no assignment of \<^verbatim>\<open>update_trade_exit\<close> names:
  every field but \<open>status\<close>, \<open>exit_price\<close> and \<open>pnl\<close>.
\<close>

definition same_static_fields :: "trade \<Rightarrow> trade \<Rightarrow> bool" where
  "same_static_fields a b =
     (id_t a = id_t b \<and> ts a = ts b \<and> symbol a = symbol b \<and> option_type a = option_type b \<and>
      strike a = strike b \<and> expiry a = expiry b \<and> lot_size a = lot_size b \<and> lots a = lots b \<and>
      entry a = entry b \<and> target a = target b \<and> stop a = stop b \<and> auto_close a = auto_close b)"

text \<open>
  Two open trades for the concrete instances: a call bought at 2.40 with target 3.10
  and stop 2.00 (the defaults of the form but for the stop), and a put with no stop.
\<close>

definition ex_call :: trade where
  "ex_call =
     \<lparr> id_t = ''1b4e28ba'', ts = ''2025-08-14 09:20:00'', symbol = ''MIDCPNIFTY'',
       option_type = ''CE'', strike = 14000, expiry = ''14-Aug-2025'', lot_size = 140, lots = 1,
       entry = 12 / 5, target = 31 / 10, stop = 2, auto_close = True, status = ''OPEN'',
       exit_price = 0, pnl = 0 \<rparr>"

definition ex_put :: trade where
  "ex_put =
     \<lparr> id_t = ''9f3c07d1'', ts = ''2025-08-14 09:31:00'', symbol = ''NIFTY'',
       option_type = ''PE'', strike = 24500, expiry = ''14-Aug-2025'', lot_size = 75, lots = 2,
       entry = 5, target = 7, stop = 0, auto_close = True, status = ''OPEN'',
       exit_price = 0, pnl = 0 \<rparr>"





section \<open>Properties\<close>

subsection \<open>What \<^verbatim>\<open>update_trade_exit\<close> does to the list\<close>

lemma update_trade_exit_Cons:
  "update_trade_exit a p (t # rest) =
     (if id_t t = a \<and> status t = ''OPEN'' then closed_at p t # rest
      else t # update_trade_exit a p rest)"
  by (simp add: closed_at_def Let_def)

declare update_trade_exit.simps(2) [simp del]
declare auto_close_loop.simps [simp del]

lemma id_t_closed_at: "id_t (closed_at p t) = id_t t"
  by (simp add: closed_at_def)

lemma status_closed_at: "status (closed_at p t) = ''CLOSED''"
  by (simp add: closed_at_def)

lemma length_update_trade_exit: "length (update_trade_exit a p xs) = length xs"
  by (induction xs) (simp_all only: update_trade_exit.simps(1) update_trade_exit_Cons list.size split: if_split, simp_all)

lemma map_id_update_trade_exit: "map id_t (update_trade_exit a p xs) = map id_t xs"
  by (induction xs) (simp_all add: update_trade_exit_Cons id_t_closed_at del: update_trade_exit.simps(2))

lemma update_trade_exit_none:
  "\<forall>t \<in> set xs. id_t t = a \<longrightarrow> status t \<noteq> ''OPEN'' \<Longrightarrow> update_trade_exit a p xs = xs"
  by (induction xs) (auto simp add: update_trade_exit_Cons simp del: update_trade_exit.simps(2))

lemma update_trade_exit_first:
  assumes "j < length xs" "id_t (xs ! j) = a" "status (xs ! j) = ''OPEN''"
    and "\<forall>l<j. id_t (xs ! l) = a \<longrightarrow> status (xs ! l) \<noteq> ''OPEN''"
  shows "update_trade_exit a p xs = xs[j := closed_at p (xs ! j)]"
  using assms
proof (induction xs arbitrary: j)
  case Nil
  then show ?case by simp
next
  case (Cons t rest)
  show ?case
  proof (cases j)
    case 0
    with Cons.prems show ?thesis 
      by (simp add: update_trade_exit_Cons del: update_trade_exit.simps(2))
  next
    case (Suc j')
    with Cons.prems have h: "\<not> (id_t t = a \<and> status t = ''OPEN'')"
      by auto
    have "update_trade_exit a p rest = rest[j' := closed_at p (rest ! j')]"
      using Cons.prems Suc by (intro Cons.IH) auto
    with h Suc show ?thesis
      by (auto simp add: update_trade_exit_Cons simp del: update_trade_exit.simps(2))
  qed
qed

lemma exists_first:
  assumes "k < length xs" "id_t (xs ! k) = a" "status (xs ! k) = ''OPEN''"
  shows "\<exists>j\<le>k. id_t (xs ! j) = a \<and> status (xs ! j) = ''OPEN'' \<and>
     (\<forall>l<j. id_t (xs ! l) = a \<longrightarrow> status (xs ! l) \<noteq> ''OPEN'')"
proof -
  let ?P = "\<lambda>j. id_t (xs ! j) = a \<and> status (xs ! j) = ''OPEN''"
  have "?P k" using assms by simp
  then have "?P (LEAST j. ?P j)" by (rule LeastI)
  moreover have "(LEAST j. ?P j) \<le> k" using \<open>?P k\<close> by (rule Least_le)
  moreover have "\<forall>l<(LEAST j. ?P j). \<not> ?P l" using not_less_Least by blast
  ultimately show ?thesis by blast
qed

lemma update_trade_exit_nth:
  assumes "k < length xs"
  shows "update_trade_exit a p xs ! k = xs ! k \<or>
    (id_t (xs ! k) = a \<and> status (xs ! k) = ''OPEN'' \<and>
     update_trade_exit a p xs ! k = closed_at p (xs ! k))"
  using assms
proof (induction xs arbitrary: k)
  case Nil
  then show ?case by simp
next
  case (Cons t rest)
  show ?case
  proof (cases k)
    case 0
    then show ?thesis by (simp add: update_trade_exit_Cons del: update_trade_exit.simps(2))
  next
    case (Suc k')
    with Cons.prems have "k' < length rest" by simp
    then have "update_trade_exit a p rest ! k' = rest ! k' \<or>
      (id_t (rest ! k') = a \<and> status (rest ! k') = ''OPEN'' \<and>
       update_trade_exit a p rest ! k' = closed_at p (rest ! k'))"
      by (rule Cons.IH)
    with Suc show ?thesis by (simp add: update_trade_exit_Cons del: update_trade_exit.simps(2))
  qed
qed

subsection \<open>What one pass of \<^verbatim>\<open>auto_close_if_hit\<close> does to the list\<close>

lemma auto_close_body_cases:
  "auto_close_body m i xs = xs \<or>
   (status (xs ! i) = ''OPEN'' \<and> auto_close (xs ! i) \<and>
    (\<exists>ltp. m (symbol (xs ! i)) = Some ltp \<and>
      ((hit_target (xs ! i) ltp \<and>
          auto_close_body m i xs = update_trade_exit (id_t (xs ! i)) (target (xs ! i)) xs) \<or>
       (\<not> hit_target (xs ! i) ltp \<and> hit_stop (xs ! i) ltp \<and>
          auto_close_body m i xs = update_trade_exit (id_t (xs ! i)) (stop (xs ! i)) xs))))"
  by (simp add: auto_close_body_def Let_def split: option.split)

lemma length_auto_close_body: "length (auto_close_body m i xs) = length xs"
  using auto_close_body_cases [of m i xs] by (auto simp: length_update_trade_exit)

lemma map_id_auto_close_body: "map id_t (auto_close_body m i xs) = map id_t xs"
  using auto_close_body_cases [of m i xs] by (auto simp: map_id_update_trade_exit)

lemma auto_close_body_nth:
  assumes "k < length xs"
  shows "auto_close_body m i xs ! k = xs ! k \<or>
    (id_t (xs ! k) = id_t (xs ! i) \<and> status (xs ! k) = ''OPEN'' \<and>
     (\<exists>p. auto_close_body m i xs ! k = closed_at p (xs ! k)))"
  using auto_close_body_cases [of m i xs]
    update_trade_exit_nth [OF assms, of "id_t (xs ! i)" "target (xs ! i)"]
    update_trade_exit_nth [OF assms, of "id_t (xs ! i)" "stop (xs ! i)"]
  by auto

lemma length_auto_close_loop: "length (auto_close_loop m i xs) = length xs"
proof (induction m i xs rule: auto_close_loop.induct)
  case (1 m i xs)
  show ?case
  proof (cases "i < length xs")
    case True
    then have "length (auto_close_loop m (Suc i) (auto_close_body m i xs)) = length xs"
      using "1.IH" by (simp add: length_auto_close_body)
    with True show ?thesis by (subst auto_close_loop.simps) simp
  next
    case False
    then show ?thesis by (subst auto_close_loop.simps) simp
  qed
qed

lemma map_id_auto_close_loop: "map id_t (auto_close_loop m i xs) = map id_t xs"
proof (induction m i xs rule: auto_close_loop.induct)
  case (1 m i xs)
  show ?case
  proof (cases "i < length xs")
    case True
    then have "map id_t (auto_close_loop m (Suc i) (auto_close_body m i xs)) = map id_t xs"
      using "1.IH" by (simp add: map_id_auto_close_body)
    with True show ?thesis by (subst auto_close_loop.simps) simp
  next
    case False
    then show ?thesis by (subst auto_close_loop.simps) simp
  qed
qed

lemma auto_close_loop_nth:
  "k < length xs \<Longrightarrow>
   auto_close_loop m i xs ! k = xs ! k \<or>
   (status (xs ! k) = ''OPEN'' \<and> (\<exists>p. auto_close_loop m i xs ! k = closed_at p (xs ! k)))"
proof (induction m i xs rule: auto_close_loop.induct)
  case (1 m i xs)
  show ?case
  proof (cases "i < length xs")
    case True
    let ?ys = "auto_close_body m i xs"
    have eq: "auto_close_loop m i xs = auto_close_loop m (Suc i) ?ys"
      using True by (subst auto_close_loop.simps) simp
    have k: "k < length ?ys" using "1.prems" by (simp add: length_auto_close_body)
    have ih: "auto_close_loop m (Suc i) ?ys ! k = ?ys ! k \<or>
      (status (?ys ! k) = ''OPEN'' \<and> (\<exists>p. auto_close_loop m (Suc i) ?ys ! k = closed_at p (?ys ! k)))"
      using "1.IH" [OF True k] .
    have body: "?ys ! k = xs ! k \<or>
      (id_t (xs ! k) = id_t (xs ! i) \<and> status (xs ! k) = ''OPEN'' \<and>
       (\<exists>p. ?ys ! k = closed_at p (xs ! k)))"
      using "1.prems" by (rule auto_close_body_nth)
    show ?thesis
    proof (cases "?ys ! k = xs ! k")
      case True
      with ih eq show ?thesis by simp
    next
      case False
      with body obtain p where p: "status (xs ! k) = ''OPEN''" "?ys ! k = closed_at p (xs ! k)"
        by blast
      then have "status (?ys ! k) \<noteq> ''OPEN''" by (simp add: status_closed_at)
      with ih have "auto_close_loop m (Suc i) ?ys ! k = ?ys ! k" by blast
      with p eq show ?thesis by auto
    qed
  next
    case False
    then show ?thesis by (subst auto_close_loop.simps) simp
  qed
qed

subsection \<open>Closed entries, added trades and ids\<close>

lemma same_static_fields_closed_at: "same_static_fields (closed_at p t) t"
  by (simp add: same_static_fields_def closed_at_def)


lemma auto_close_if_hit_nth:
  "k < length trades \<Longrightarrow>
   auto_close_if_hit m trades ! k = trades ! k \<or>
   (status (trades ! k) = ''OPEN'' \<and> (\<exists>p. auto_close_if_hit m trades ! k = closed_at p (trades ! k)))"
  unfolding auto_close_if_hit_def by (rule auto_close_loop_nth)


lemma length_add_trade: "length (add_trade u n f xs) = Suc (length xs)"
  by (simp add: add_trade_def save_trade_def)

lemma nth_add_trade: "k < length xs \<Longrightarrow> add_trade u n f xs ! k = xs ! k"
  by (simp add: add_trade_def save_trade_def nth_append)

lemma apply_action_keeps_closed:
  assumes "k < length xs" and "status (xs ! k) \<noteq> ''OPEN''"
  shows "k < length (apply_action a xs) \<and> apply_action a xs ! k = xs ! k"
proof (cases a)
  case (AddTrade u n f)
  with assms show ?thesis by (simp add: length_add_trade nth_add_trade)
next
  case (CloseSelected pick close_px)
  with assms update_trade_exit_nth [OF assms(1), of pick close_px] show ?thesis
    by (auto simp: length_update_trade_exit)
next
  case (ApplyLTP m)
  with assms auto_close_if_hit_nth [OF assms(1), of m] show ?thesis
    by (auto simp: auto_close_if_hit_def length_auto_close_loop)
qed

lemma run_actions_keeps_closed:
  "k < length xs \<Longrightarrow> status (xs ! k) \<noteq> ''OPEN'' \<Longrightarrow>
   k < length (run_actions acts xs) \<and> run_actions acts xs ! k = xs ! k"
proof (induction acts arbitrary: xs)
  case Nil
  then show ?case by simp
next
  case (Cons a acts)
  have step: "k < length (apply_action a xs) \<and> apply_action a xs ! k = xs ! k"
    using Cons.prems by (rule apply_action_keeps_closed)
  then have "status (apply_action a xs ! k) \<noteq> ''OPEN''"
    using Cons.prems by simp
  with step have "k < length (run_actions acts (apply_action a xs)) \<and>
      run_actions acts (apply_action a xs) ! k = apply_action a xs ! k"
    by (intro Cons.IH) simp_all
  with step show ?case by simp
qed


lemma map_id_auto_close_if_hit: "map id_t (auto_close_if_hit m xs) = map id_t xs"
  by (simp add: auto_close_if_hit_def map_id_auto_close_loop)


subsection \<open>A pass over a list in which an entry is alone with its id\<close>

lemma auto_close_body_single:
  "auto_close_body m 0 [t] ! 0 =
     (if status t = ''OPEN'' \<and> auto_close t then
        (case m (symbol t) of
           None \<Rightarrow> t
         | Some ltp \<Rightarrow>
             if ltp \<ge> target t then closed_at (target t) t
             else if stop t > 0 \<and> ltp \<le> stop t then closed_at (stop t) t
             else t)
      else t)"
  by (simp add: auto_close_body_def Let_def hit_target_def hit_stop_def update_trade_exit_Cons
      split: option.split)

lemma auto_close_body_other_id:
  assumes "k < length xs" and "id_t (xs ! k) \<noteq> id_t (xs ! i)"
  shows "auto_close_body m i xs ! k = xs ! k"
  using auto_close_body_nth [OF assms(1), of m i] assms(2) by blast

lemma auto_close_body_alone:
  assumes k: "k < length xs"
    and alone: "\<forall>j<length xs. j \<noteq> k \<longrightarrow> id_t (xs ! j) \<noteq> id_t (xs ! k)"
  shows "auto_close_body m k xs = xs[k := auto_close_body m 0 [xs ! k] ! 0]"
proof -
  have upd: "update_trade_exit (id_t (xs ! k)) p xs = xs[k := closed_at p (xs ! k)]"
    if "status (xs ! k) = ''OPEN''" for p
  proof (rule update_trade_exit_first [OF k _ that])
    show "id_t (xs ! k) = id_t (xs ! k)" by simp
    show "\<forall>l<k. id_t (xs ! l) = id_t (xs ! k) \<longrightarrow> status (xs ! l) \<noteq> ''OPEN''"
      using alone k by auto
  qed
  show ?thesis
    by (simp add: auto_close_body_def Let_def upd update_trade_exit_Cons split: option.split)
qed

lemma auto_close_loop_alone:
  "k < length xs \<Longrightarrow> \<forall>j<length xs. j \<noteq> k \<longrightarrow> id_t (xs ! j) \<noteq> id_t (xs ! k) \<Longrightarrow>
   auto_close_loop m i xs ! k = (if i \<le> k then auto_close_body m 0 [xs ! k] ! 0 else xs ! k)"
proof (induction m i xs rule: auto_close_loop.induct)
  case (1 m i xs)
  show ?case
  proof (cases "i < length xs")
    case False
    with "1.prems" show ?thesis by (subst auto_close_loop.simps) simp
  next
    case True
    let ?ys = "auto_close_body m i xs"
    have eq: "auto_close_loop m i xs = auto_close_loop m (Suc i) ?ys"
      using True by (subst auto_close_loop.simps) simp
    have len: "length ?ys = length xs" by (rule length_auto_close_body)
    have ids: "id_t (?ys ! j) = id_t (xs ! j)" if "j < length xs" for j
    proof -
      have "map id_t ?ys ! j = map id_t xs ! j" by (simp add: map_id_auto_close_body)
      with that len show ?thesis by simp
    qed
    have k': "k < length ?ys" using "1.prems"(1) len by simp
    have alone': "\<forall>j<length ?ys. j \<noteq> k \<longrightarrow> id_t (?ys ! j) \<noteq> id_t (?ys ! k)"
      using "1.prems" ids len by simp
    have ih: "auto_close_loop m (Suc i) ?ys ! k =
        (if Suc i \<le> k then auto_close_body m 0 [?ys ! k] ! 0 else ?ys ! k)"
      using "1.IH" [OF True k' alone'] .
    show ?thesis
    proof (cases "i = k")
      case True
      have "?ys = xs[k := auto_close_body m 0 [xs ! k] ! 0]"
        unfolding True using "1.prems" by (rule auto_close_body_alone)
      with ih eq True "1.prems"(1) show ?thesis by simp
    next
      case False
      with "1.prems"(2) \<open>i < length xs\<close> have "id_t (xs ! k) \<noteq> id_t (xs ! i)" by metis
      with "1.prems"(1) have "?ys ! k = xs ! k" by (rule auto_close_body_other_id)
      with ih eq False show ?thesis by auto
    qed
  qed
qed

lemma auto_close_if_hit_alone:
  assumes "k < length xs" and "\<forall>j<length xs. j \<noteq> k \<longrightarrow> id_t (xs ! j) \<noteq> id_t (xs ! k)"
  shows "auto_close_if_hit m xs ! k = auto_close_body m 0 [xs ! k] ! 0"
  using auto_close_loop_alone [OF assms, of m 0] by (simp add: auto_close_if_hit_def)



lemma auto_close_loop_idle:
  "\<forall>j<length xs. auto_close_body m j xs = xs \<Longrightarrow> auto_close_loop m i xs = xs"
proof (induction m i xs rule: auto_close_loop.induct)
  case (1 m i xs)
  show ?case
  proof (cases "i < length xs")
    case True
    with "1.prems" have b: "auto_close_body m i xs = xs" by simp
    have "auto_close_loop m (Suc i) (auto_close_body m i xs) = auto_close_body m i xs"
      using True "1.prems" by (intro "1.IH") (simp_all add: b)
    with True b show ?thesis by (subst auto_close_loop.simps) simp
  next
    case False
    then show ?thesis by (subst auto_close_loop.simps) simp
  qed
qed

lemma auto_close_body_single_twice:
  "auto_close_body m 0 [auto_close_body m 0 [t] ! 0] ! 0 = auto_close_body m 0 [t] ! 0"
  by (simp add: auto_close_body_single status_closed_at split: option.split)

lemma distinct_ids_alone:
  assumes "distinct (map id_t xs)" and "k < length xs"
  shows "\<forall>j<length xs. j \<noteq> k \<longrightarrow> id_t (xs ! j) \<noteq> id_t (xs ! k)"
proof (intro allI impI)
  fix j
  assume j: "j < length xs" and ne: "j \<noteq> k"
  have "(map id_t xs ! j = map id_t xs ! k) = (j = k)"
    using assms j by (intro nth_eq_iff_index_eq) simp_all
  with j assms(2) ne show "id_t (xs ! j) \<noteq> id_t (xs ! k)" by simp
qed

lemma auto_close_if_hit_distinct:
  assumes "distinct (map id_t xs)"
  shows "auto_close_if_hit m xs = map (\<lambda>t. auto_close_body m 0 [t] ! 0) xs"
proof (rule nth_equalityI)
  show "length (auto_close_if_hit m xs) = length (map (\<lambda>t. auto_close_body m 0 [t] ! 0) xs)"
    by (simp add: auto_close_if_hit_def length_auto_close_loop)
next
  fix k
  assume "k < length (auto_close_if_hit m xs)"
  then have k: "k < length xs"
    by (simp add: auto_close_if_hit_def length_auto_close_loop)
  then show "auto_close_if_hit m xs ! k = map (\<lambda>t. auto_close_body m 0 [t] ! 0) xs ! k"
    using auto_close_if_hit_alone [OF k distinct_ids_alone [OF assms k], of m] by simp
qed

lemma auto_close_if_hit_twice:
  assumes "distinct (map id_t xs)"
  shows "auto_close_if_hit m (auto_close_if_hit m xs) = auto_close_if_hit m xs"
proof -
  have d: "distinct (map id_t (auto_close_if_hit m xs))"
    using assms by (simp add: map_id_auto_close_if_hit)
  have "auto_close_if_hit m (auto_close_if_hit m xs) =
      map (\<lambda>t. auto_close_body m 0 [t] ! 0) (map (\<lambda>t. auto_close_body m 0 [t] ! 0) xs)"
    using auto_close_if_hit_distinct [OF d, of m] auto_close_if_hit_distinct [OF assms, of m]
    by simp
  also have "\<dots> = map (\<lambda>t. auto_close_body m 0 [t] ! 0) xs"
    by (simp add: auto_close_body_single_twice)
  finally show ?thesis
    using auto_close_if_hit_distinct [OF assms, of m] by simp
qed

section \<open>The claims\<close>

subsection \<open>C1: a close that finds no open trade\<close>

text \<open>
  C1, as the code has it. A call of \<^verbatim>\<open>update_trade_exit\<close> never fails: it raises
  neither \<^verbatim>\<open>NotFoundError\<close> nor \<^verbatim>\<open>AlreadyClosedError\<close> and returns normally. When no
  entry with the given id is open (no entry has the id, or every entry that has it is
  closed) the list it leaves is the list it found. An entry that is not open is never
  rewritten again, neither by a further close with any id and price nor by any
  sequence of button presses, so the \<open>exit_price\<close> and \<open>pnl\<close> of a closed trade stay.
\<close>

theorem close_without_open_trade:
  "((\<forall>t \<in> set trades. id_t t = trade_id \<longrightarrow> status t \<noteq> ''OPEN'') \<longrightarrow>
      update_trade_exit_call trade_id exit_px trades = Inr trades) \<and>
   (k < length trades \<longrightarrow> status (trades ! k) \<noteq> ''OPEN'' \<longrightarrow>
      update_trade_exit trade_id exit_px trades ! k = trades ! k \<and>
      k < length (run_actions acts trades) \<and> run_actions acts trades ! k = trades ! k)"
proof (intro conjI impI)
  assume "\<forall>t \<in> set trades. id_t t = trade_id \<longrightarrow> status t \<noteq> ''OPEN''"
  then show "update_trade_exit_call trade_id exit_px trades = Inr trades"
    by (simp add: update_trade_exit_call_def update_trade_exit_none)
next
  assume k: "k < length trades" and st: "status (trades ! k) \<noteq> ''OPEN''"
  show "update_trade_exit trade_id exit_px trades ! k = trades ! k"
    using update_trade_exit_nth [OF k, of trade_id exit_px] st by blast
  show "k < length (run_actions acts trades)"
    using run_actions_keeps_closed [OF k st] by blast
  show "run_actions acts trades ! k = trades ! k"
    using run_actions_keeps_closed [OF k st] by blast
qed

theorem close_without_open_trade_witness:
  "update_trade_exit_call ''00000000'' 3 [ex_put, closed_at 3 ex_call] = Inr [ex_put, closed_at 3 ex_call] \<and>
   status ([ex_put, closed_at 3 ex_call] ! 1) \<noteq> ''OPEN'' \<and>
   update_trade_exit ''1b4e28ba'' 4 [ex_put, closed_at 3 ex_call] ! 1 = closed_at 3 ex_call \<and>
   run_actions [CloseSelected ''1b4e28ba'' 4, ApplyLTP [''MIDCPNIFTY'' \<mapsto> 4], CloseSelected ''1b4e28ba'' 5]
     [ex_put, closed_at 3 ex_call] ! 1 = closed_at 3 ex_call"
  using close_without_open_trade [of "[ex_put, closed_at 3 ex_call]" "''00000000''" 3 1
      "[CloseSelected ''1b4e28ba'' 4, ApplyLTP [''MIDCPNIFTY'' \<mapsto> 4], CloseSelected ''1b4e28ba'' 5]"]
    close_without_open_trade [of "[ex_put, closed_at 3 ex_call]" "''1b4e28ba''" 4 1 "[]"]
  by (simp add: status_closed_at id_t_closed_at ex_put_def ex_call_def)

text \<open>
  The claim as the specification words it fails: with no trade of the id in the list
  the call returns normally, and so it does for the id of a closed trade.
\<close>

theorem close_raises_no_error:
  "id_t ex_put \<noteq> ''00000000'' \<and>
   update_trade_exit_call ''00000000'' 3 [ex_put] = Inr [ex_put] \<and>
   update_trade_exit_call ''00000000'' 3 [ex_put] \<noteq> Inl NotFoundError \<and>
   id_t (closed_at 3 ex_call) = ''1b4e28ba'' \<and> status (closed_at 3 ex_call) = ''CLOSED'' \<and>
   update_trade_exit_call ''1b4e28ba'' 4 [closed_at 3 ex_call] = Inr [closed_at 3 ex_call] \<and>
   update_trade_exit_call ''1b4e28ba'' 4 [closed_at 3 ex_call] \<noteq> Inl AlreadyClosedError"
  by (simp add: update_trade_exit_call_def update_trade_exit_Cons status_closed_at id_t_closed_at
      ex_put_def ex_call_def)

subsection \<open>C2: the booked profit and loss\<close>



subsection \<open>C3: target before stop\<close>




subsection \<open>C4: the exit price of an automatic close\<close>




subsection \<open>C5: the two trigger conditions\<close>

text \<open>
  C5. For a trade and a last traded price, the flag \<^verbatim>\<open>hit_target\<close> is
  \<open>ltp \<ge> target\<close> and the flag \<^verbatim>\<open>hit_stop\<close> is \<open>stop > 0 \<and> ltp \<le> stop\<close>, whatever the
  option type is (a \<^verbatim>\<open>CE\<close> and a \<^verbatim>\<open>PE\<close> with the same numbers get the same flags); with
  \<open>stop = 0\<close> the stop flag is false for every price. For an open trade whose symbol
  is in the snapshot, the loop body closes at the target exactly when auto-close is
  on and \<open>ltp \<ge> target\<close>, otherwise at the stop exactly when auto-close is on and
  \<open>stop > 0 \<and> ltp \<le> stop\<close>, and otherwise leaves the list alone.
\<close>

theorem trigger_conditions:
  "hit_target t ltp = (ltp \<ge> target t) \<and>
   hit_stop t ltp = (stop t > 0 \<and> ltp \<le> stop t) \<and>
   hit_target (t\<lparr>option_type := ''PE''\<rparr>) ltp = hit_target (t\<lparr>option_type := ''CE''\<rparr>) ltp \<and>
   hit_stop (t\<lparr>option_type := ''PE''\<rparr>) ltp = hit_stop (t\<lparr>option_type := ''CE''\<rparr>) ltp \<and>
   (stop t = 0 \<longrightarrow> \<not> hit_stop t ltp) \<and>
   (status (trades ! i) = ''OPEN'' \<longrightarrow> ltp_map (symbol (trades ! i)) = Some ltp \<longrightarrow>
      auto_close_body ltp_map i trades =
        (if auto_close (trades ! i) \<and> ltp \<ge> target (trades ! i)
         then update_trade_exit (id_t (trades ! i)) (target (trades ! i)) trades
         else if auto_close (trades ! i) \<and> stop (trades ! i) > 0 \<and> ltp \<le> stop (trades ! i)
         then update_trade_exit (id_t (trades ! i)) (stop (trades ! i)) trades
         else trades))"
proof -
  have a: "hit_target u x = (x \<ge> target u)" for u x
    by (simp add: hit_target_def)
  have b: "hit_stop u x = (stop u > 0 \<and> x \<le> stop u)" for u x
    by (simp add: hit_stop_def)
  have c: "hit_target (t\<lparr>option_type := ''PE''\<rparr>) ltp = hit_target (t\<lparr>option_type := ''CE''\<rparr>) ltp"
    by (simp add: a)
  have d: "hit_stop (t\<lparr>option_type := ''PE''\<rparr>) ltp = hit_stop (t\<lparr>option_type := ''CE''\<rparr>) ltp"
    by (simp add: b)
  have e: "stop t = 0 \<longrightarrow> \<not> hit_stop t ltp"
    by (simp add: b)
  have f: "status (trades ! i) = ''OPEN'' \<longrightarrow> ltp_map (symbol (trades ! i)) = Some ltp \<longrightarrow>
      auto_close_body ltp_map i trades =
        (if auto_close (trades ! i) \<and> ltp \<ge> target (trades ! i)
         then update_trade_exit (id_t (trades ! i)) (target (trades ! i)) trades
         else if auto_close (trades ! i) \<and> stop (trades ! i) > 0 \<and> ltp \<le> stop (trades ! i)
         then update_trade_exit (id_t (trades ! i)) (stop (trades ! i)) trades
         else trades)"
    by (simp add: auto_close_body_def Let_def a b)
  show ?thesis
    using a [of t ltp] b [of t ltp] c d e f by blast
qed

theorem trigger_conditions_witness:
  "stop ex_put = 0 \<and> \<not> hit_stop ex_put 0 \<and> hit_target ex_put 7 \<and> \<not> hit_target ex_put (69 / 10) \<and>
   status ([ex_call] ! 0) = ''OPEN'' \<and> [''MIDCPNIFTY'' \<mapsto> 2] (symbol ([ex_call] ! 0)) = Some 2 \<and>
   auto_close_body [''MIDCPNIFTY'' \<mapsto> 2] 0 [ex_call] = update_trade_exit ''1b4e28ba'' 2 [ex_call]"
  using trigger_conditions [of ex_put 0 "[ex_call]" 0 "[''MIDCPNIFTY'' \<mapsto> 2]"]
    trigger_conditions [of ex_put 7] trigger_conditions [of ex_put "69 / 10"]
    trigger_conditions [of ex_call 2 "[ex_call]" 0 "[''MIDCPNIFTY'' \<mapsto> 2]"]
  by (simp add: ex_put_def ex_call_def)

subsection \<open>C6: what the \<^verbatim>\<open>Add Trade\<close> handler does with a form\<close>



subsection \<open>C7: the ids of a session\<close>




subsection \<open>C8: what a pass of the automatic close changes\<close>

text \<open>
  C8, as the code has it. \<^verbatim>\<open>auto_close_if_hit\<close> is a function of the list and the
  snapshot, but it is not a pure evaluation: it closes the trades itself, inside the
  scan, by calling \<^verbatim>\<open>update_trade_exit\<close>. What a pass does is bounded as follows. The
  list keeps its length. Each step of the scan leaves the list alone or is one call of
  \<^verbatim>\<open>update_trade_exit\<close> with the id of the trade it looks at. Every entry is afterwards
  what it was, or it was open and is now that entry closed at some price, with
  \<open>status\<close>, \<open>exit_price\<close> and \<open>pnl\<close> set as the close sets them. When no open trade
  with auto-close on has a price that meets its target or its stop condition, the
  list is unchanged. When the ids of the list are pairwise distinct, a second pass with
  the same snapshot changes nothing more.
\<close>

theorem auto_close_pass_effect:
  "length (auto_close_if_hit ltp_map trades) = length trades \<and>
   (auto_close_body ltp_map i trades = trades \<or>
    (\<exists>p. auto_close_body ltp_map i trades = update_trade_exit (id_t (trades ! i)) p trades)) \<and>
   (k < length trades \<longrightarrow>
      auto_close_if_hit ltp_map trades ! k = trades ! k \<or>
      status (trades ! k) = ''OPEN'' \<and>
      (\<exists>p. auto_close_if_hit ltp_map trades ! k =
             (trades ! k)\<lparr>status := ''CLOSED'', exit_price := p,
                pnl := (p - entry (trades ! k)) * real_of_int (lot_size (trades ! k))
                         * real_of_int (lots (trades ! k))\<rparr>)) \<and>
   ((\<forall>j<length trades. status (trades ! j) = ''OPEN'' \<longrightarrow> auto_close (trades ! j) \<longrightarrow>
       (\<forall>ltp. ltp_map (symbol (trades ! j)) = Some ltp \<longrightarrow>
          \<not> hit_target (trades ! j) ltp \<and> \<not> hit_stop (trades ! j) ltp)) \<longrightarrow>
      auto_close_if_hit ltp_map trades = trades) \<and>
   (distinct (map id_t trades) \<longrightarrow>
      auto_close_if_hit ltp_map (auto_close_if_hit ltp_map trades) = auto_close_if_hit ltp_map trades)"
proof (intro conjI impI)
  show "length (auto_close_if_hit ltp_map trades) = length trades"
    by (simp add: auto_close_if_hit_def length_auto_close_loop)
next
  show "auto_close_body ltp_map i trades = trades \<or>
    (\<exists>p. auto_close_body ltp_map i trades = update_trade_exit (id_t (trades ! i)) p trades)"
    using auto_close_body_cases [of ltp_map i trades] by blast
next
  assume "k < length trades"
  then show "auto_close_if_hit ltp_map trades ! k = trades ! k \<or>
      status (trades ! k) = ''OPEN'' \<and>
      (\<exists>p. auto_close_if_hit ltp_map trades ! k =
             (trades ! k)\<lparr>status := ''CLOSED'', exit_price := p,
                pnl := (p - entry (trades ! k)) * real_of_int (lot_size (trades ! k))
                         * real_of_int (lots (trades ! k))\<rparr>)"
    using auto_close_if_hit_nth [of k trades ltp_map] unfolding closed_at_def by blast
next
  assume idle: "\<forall>j<length trades. status (trades ! j) = ''OPEN'' \<longrightarrow> auto_close (trades ! j) \<longrightarrow>
       (\<forall>ltp. ltp_map (symbol (trades ! j)) = Some ltp \<longrightarrow>
          \<not> hit_target (trades ! j) ltp \<and> \<not> hit_stop (trades ! j) ltp)"
  have "\<forall>j<length trades. auto_close_body ltp_map j trades = trades"
  proof (intro allI impI)
    fix j
    assume "j < length trades"
    with idle show "auto_close_body ltp_map j trades = trades"
      using auto_close_body_cases [of ltp_map j trades] by blast
  qed
  then show "auto_close_if_hit ltp_map trades = trades"
    unfolding auto_close_if_hit_def by (rule auto_close_loop_idle)
next
  assume "distinct (map id_t trades)"
  then show "auto_close_if_hit ltp_map (auto_close_if_hit ltp_map trades) =
      auto_close_if_hit ltp_map trades"
    by (rule auto_close_if_hit_twice)
qed

theorem auto_close_pass_effect_witness:
  "distinct (map id_t [ex_call, ex_put]) \<and>
   auto_close_if_hit [''MIDCPNIFTY'' \<mapsto> 3, ''NIFTY'' \<mapsto> 6] [ex_call, ex_put] = [ex_call, ex_put] \<and>
   auto_close_if_hit [''MIDCPNIFTY'' \<mapsto> 1, ''NIFTY'' \<mapsto> 8]
     (auto_close_if_hit [''MIDCPNIFTY'' \<mapsto> 1, ''NIFTY'' \<mapsto> 8] [ex_call, ex_put]) =
   auto_close_if_hit [''MIDCPNIFTY'' \<mapsto> 1, ''NIFTY'' \<mapsto> 8] [ex_call, ex_put]"
proof -
  let ?L = "[ex_call, ex_put]"
  have d: "distinct (map id_t ?L)"
    by (simp add: ex_call_def ex_put_def)
  have idle: "\<forall>j<length ?L. status (?L ! j) = ''OPEN'' \<longrightarrow> auto_close (?L ! j) \<longrightarrow>
       (\<forall>ltp. [''MIDCPNIFTY'' \<mapsto> 3, ''NIFTY'' \<mapsto> 6] (symbol (?L ! j)) = Some ltp \<longrightarrow>
          \<not> hit_target (?L ! j) ltp \<and> \<not> hit_stop (?L ! j) ltp)"
    by (simp add: less_Suc_eq hit_target_def hit_stop_def ex_call_def ex_put_def)
  show ?thesis
    using auto_close_pass_effect [of "[''MIDCPNIFTY'' \<mapsto> 3, ''NIFTY'' \<mapsto> 6]" ?L 0 0]
      auto_close_pass_effect [of "[''MIDCPNIFTY'' \<mapsto> 1, ''NIFTY'' \<mapsto> 8]" ?L 0 0] d idle
    by blast
qed

text \<open>
  The claim as the specification words it fails: one pass over a list with an open
  put whose target is reached changes the list; the put is closed by the pass itself.
\<close>

theorem auto_close_pass_mutates:
  "status ([ex_put] ! 0) = ''OPEN'' \<and>
   auto_close_if_hit [''NIFTY'' \<mapsto> 8] [ex_put] \<noteq> [ex_put] \<and>
   status (auto_close_if_hit [''NIFTY'' \<mapsto> 8] [ex_put] ! 0) = ''CLOSED'' \<and>
   exit_price (auto_close_if_hit [''NIFTY'' \<mapsto> 8] [ex_put] ! 0) = 7 \<and>
   pnl (auto_close_if_hit [''NIFTY'' \<mapsto> 8] [ex_put] ! 0) = 300"
  by code_simp

subsection \<open>C9: trades with auto-close switched off\<close>




subsection \<open>C10: what a successful close changes\<close>

text \<open>
  C10. When \<^verbatim>\<open>update_trade_exit\<close> is called with an id that an open trade of the list
  carries, the list keeps its length and its order; exactly one entry is rewritten,
  the first open one with that id; of that entry only \<open>status\<close>, \<open>exit_price\<close> and
  \<open>pnl\<close> are assigned, its twelve other fields keep their values, and every other entry
  of the list is the same as before.
\<close>

theorem close_open_frame:
  assumes "k < length trades" and "id_t (trades ! k) = trade_id" and "status (trades ! k) = ''OPEN''"
  shows "\<exists>j\<le>k. id_t (trades ! j) = trade_id \<and> status (trades ! j) = ''OPEN'' \<and>
           (\<forall>l<j. id_t (trades ! l) = trade_id \<longrightarrow> status (trades ! l) \<noteq> ''OPEN'') \<and>
           update_trade_exit trade_id exit_px trades =
             trades[j := (trades ! j)\<lparr>status := ''CLOSED'', exit_price := exit_px,
               pnl := (exit_px - entry (trades ! j)) * real_of_int (lot_size (trades ! j))
                        * real_of_int (lots (trades ! j))\<rparr>] \<and>
           same_static_fields (update_trade_exit trade_id exit_px trades ! j) (trades ! j) \<and>
           (\<forall>l<length trades. l \<noteq> j \<longrightarrow> update_trade_exit trade_id exit_px trades ! l = trades ! l)"
proof -
  obtain j where j: "j \<le> k" "id_t (trades ! j) = trade_id" "status (trades ! j) = ''OPEN''"
      "\<forall>l<j. id_t (trades ! l) = trade_id \<longrightarrow> status (trades ! l) \<noteq> ''OPEN''"
    using exists_first [OF assms] by blast
  with assms(1) have jl: "j < length trades" by simp
  have eq: "update_trade_exit trade_id exit_px trades = trades[j := closed_at exit_px (trades ! j)]"
    using jl j(2,3,4) by (rule update_trade_exit_first)
  have "same_static_fields (update_trade_exit trade_id exit_px trades ! j) (trades ! j)"
    using jl by (simp add: eq same_static_fields_closed_at)
  moreover have "\<forall>l<length trades. l \<noteq> j \<longrightarrow> update_trade_exit trade_id exit_px trades ! l = trades ! l"
    by (simp add: eq)
  ultimately show ?thesis
    using j eq unfolding closed_at_def by blast
qed

theorem close_open_frame_witness:
  "1 < length [ex_put, ex_call] \<and> id_t ([ex_put, ex_call] ! 1) = ''1b4e28ba'' \<and>
   status ([ex_put, ex_call] ! 1) = ''OPEN'' \<and>
   update_trade_exit ''1b4e28ba'' 3 [ex_put, ex_call] =
     [ex_put, ex_call\<lparr>status := ''CLOSED'', exit_price := 3, pnl := 84\<rparr>]"
  using close_open_frame [of 1 "[ex_put, ex_call]" "''1b4e28ba''" 3]
  by (simp add: update_trade_exit_Cons closed_at_def ex_call_def ex_put_def)

end
